theory Spec2Isabelle
  imports Main "HOL-Library.AList" "HOL-Library.Sublist"
begin

section \<open>Paths, file contents and the directory tree\<close>

text \<open>
  A \<^verbatim>\<open>pathlib.Path\<close> that went through \<^verbatim>\<open>resolve()\<close> is absolute and free of
  symbolic links; it is modelled by the list of its components below the root, so the
  root is \<open>[]\<close> and \<^verbatim>\<open>a / b\<close> is \<open>a @ b\<close>. File contents are byte strings.
\<close>

type_synonym path = "string list"
type_synonym bytes = string

datatype node = Dir | File bytes

text \<open>
  The directory tree is the list of its entries other than the root, in listing order.
  A tree that a real file system can hold is well formed: no path is listed twice, the
  root is not listed, and every entry sits in a directory.
\<close>

type_synonym fs = "(path \<times> node) list"

definition lookup :: "fs \<Rightarrow> path \<Rightarrow> node option" where
  "lookup t p = (if p = [] then Some Dir else map_of t p)"

definition wf_fs :: "fs \<Rightarrow> bool" where
  "wf_fs t \<longleftrightarrow>
     distinct (map fst t) \<and> [] \<notin> set (map fst t) \<and>
     list_all (\<lambda>p. lookup t (butlast p) = Some Dir) (map fst t)"

section \<open>Exceptions\<close>

text \<open>
  The exceptions the modelled operations raise, each with the path it reports or the
  codec's message. \<^verbatim>\<open>KeyboardInterrupt\<close> stands for the exceptions that derive from
  \<^verbatim>\<open>BaseException\<close> only, which \<^verbatim>\<open>except Exception\<close> lets through.
\<close>

datatype exn =
    FileNotFoundError path
  | FileExistsError path
  | NotADirectoryError path
  | IsADirectoryError path
  | ValueError_not_in_subpath path path
  | ValueError_max_workers
  | CodecError string
  | KeyboardInterrupt

fun is_Exception :: "exn \<Rightarrow> bool" where
  "is_Exception KeyboardInterrupt = False"
| "is_Exception _ = True"

section \<open>Path operations of \<^verbatim>\<open>pathlib\<close>\<close>

text \<open>\<^verbatim>\<open>p.name\<close>: the last component, the empty string for the root.\<close>

definition name :: "path \<Rightarrow> string" where
  "name p = (if p = [] then [] else last p)"

text \<open>\<^verbatim>\<open>p.parent\<close>: the path without its last component; the root (and the
  empty relative path) is its own parent.\<close>

definition parent :: "path \<Rightarrow> path" where
  "parent p = butlast p"

text \<open>\<^verbatim>\<open>s.rfind(c)\<close>: the index of the last occurrence, \<open>None\<close> for Python's -1.\<close>

fun rfind :: "char \<Rightarrow> string \<Rightarrow> nat option" where
  "rfind c [] = None"
| "rfind c (x # xs) =
     (case rfind c xs of
        Some i \<Rightarrow> Some (Suc i)
      | None \<Rightarrow> if x = c then Some 0 else None)"

text \<open>
  \<^verbatim>\<open>p.stem\<close>: with \<^verbatim>\<open>i = name.rfind('.')\<close>, the name up to \<^verbatim>\<open>i\<close> when
  \<^verbatim>\<open>0 < i < len(name) - 1\<close>, the whole name otherwise.
\<close>

definition stem :: "path \<Rightarrow> string" where
  "stem p =
     (let n = name p in
      case rfind CHR ''.'' n of
        None \<Rightarrow> n
      | Some i \<Rightarrow> if 0 < i \<and> i + 1 < length n then take i n else n)"

text \<open>
  \<^verbatim>\<open>p.relative_to(base)\<close>: the components of \<open>p\<close> below \<open>base\<close>;
  \<^verbatim>\<open>ValueError\<close> when \<open>p\<close> does not start with \<open>base\<close>.
\<close>

fun strip_base :: "path \<Rightarrow> path \<Rightarrow> path option" where
  "strip_base p [] = Some p"
| "strip_base [] (b # bs) = None"
| "strip_base (c # cs) (b # bs) = (if c = b then strip_base cs bs else None)"

definition relative_to :: "path \<Rightarrow> path \<Rightarrow> exn + path" where
  "relative_to p base =
     (case strip_base p base of
        None \<Rightarrow> Inl (ValueError_not_in_subpath p base)
      | Some r \<Rightarrow> Inr r)"

section \<open>File-system calls\<close>

text \<open>
  Path resolution walks the components from the root: a missing component is
  \<^verbatim>\<open>ENOENT\<close>, a component below a regular file is \<^verbatim>\<open>ENOTDIR\<close>.
\<close>

fun walk :: "fs \<Rightarrow> path \<Rightarrow> node \<Rightarrow> string list \<Rightarrow> exn + node" where
  "walk t cur n [] = Inr n"
| "walk t cur n (c # cs) =
     (case n of
        File _ \<Rightarrow> Inl (NotADirectoryError (cur @ c # cs))
      | Dir \<Rightarrow>
          (case map_of t (cur @ [c]) of
             None \<Rightarrow> Inl (FileNotFoundError (cur @ c # cs))
           | Some n' \<Rightarrow> walk t (cur @ [c]) n' cs))"

definition stat :: "fs \<Rightarrow> path \<Rightarrow> exn + node" where
  "stat t p = walk t [] Dir p"

text \<open>\<^verbatim>\<open>p.exists()\<close> and \<^verbatim>\<open>p.is_dir()\<close>: both are false when \<^verbatim>\<open>stat\<close> fails.\<close>

definition exists :: "fs \<Rightarrow> path \<Rightarrow> bool" where
  "exists t p = (case stat t p of Inl _ \<Rightarrow> False | Inr _ \<Rightarrow> True)"

definition is_dir :: "fs \<Rightarrow> path \<Rightarrow> bool" where
  "is_dir t p = (case stat t p of Inr Dir \<Rightarrow> True | _ \<Rightarrow> False)"

text \<open>An \<^verbatim>\<open>OSError\<close> names the path the failing call was given.\<close>

fun with_filename :: "path \<Rightarrow> exn \<Rightarrow> exn" where
  "with_filename p (FileNotFoundError _) = FileNotFoundError p"
| "with_filename p (FileExistsError _) = FileExistsError p"
| "with_filename p (NotADirectoryError _) = NotADirectoryError p"
| "with_filename p (IsADirectoryError _) = IsADirectoryError p"
| "with_filename p e = e"

text \<open>\<^verbatim>\<open>os.mkdir(p)\<close>: creates one directory inside an existing one.\<close>

definition os_mkdir :: "fs \<Rightarrow> path \<Rightarrow> exn + fs" where
  "os_mkdir t p =
     (if p = [] then Inl (FileExistsError p)
      else case stat t (parent p) of
        Inl e \<Rightarrow> Inl (with_filename p e)
      | Inr (File _) \<Rightarrow> Inl (NotADirectoryError p)
      | Inr Dir \<Rightarrow>
          (case map_of t p of
             Some _ \<Rightarrow> Inl (FileExistsError p)
           | None \<Rightarrow> Inr (AList.update p Dir t)))"

text \<open>
  \<^verbatim>\<open>Path.mkdir(parents, exist_ok)\<close>, as \<^verbatim>\<open>pathlib\<close> writes it:
  \<^verbatim>\<open>
  try:
      os.mkdir(self, mode)
  except FileNotFoundError:
      if not parents or self.parent == self:
          raise
      self.parent.mkdir(parents=True, exist_ok=True)
      self.mkdir(mode, parents=False, exist_ok=exist_ok)
  except OSError:
      if not exist_ok or not self.is_dir():
          raise
  \<close>
\<close>

function mkdir :: "fs \<Rightarrow> path \<Rightarrow> bool \<Rightarrow> bool \<Rightarrow> exn + fs" where
  "mkdir t p parents exist_ok =
     (case os_mkdir t p of
        Inr t' \<Rightarrow> Inr t'
      | Inl (FileNotFoundError q) \<Rightarrow>
          if \<not> parents \<or> p = [] then Inl (FileNotFoundError q)
          else (case mkdir t (parent p) True True of
                  Inl e \<Rightarrow> Inl e
                | Inr t1 \<Rightarrow> mkdir t1 p False exist_ok)
      | Inl e \<Rightarrow> if \<not> exist_ok \<or> \<not> is_dir t p then Inl e else Inr t)"
  by pat_completeness auto
termination
  by (relation "measure (\<lambda>(t, p, parents, exist_ok). 2 * length p + (if parents then 1 else 0))")
     (auto simp: parent_def)

declare mkdir.simps [simp del]

text \<open>\<^verbatim>\<open>open(p, "rb").read()\<close>.\<close>

definition read_file :: "fs \<Rightarrow> path \<Rightarrow> exn + bytes" where
  "read_file t p =
     (case stat t p of
        Inl e \<Rightarrow> Inl e
      | Inr Dir \<Rightarrow> Inl (IsADirectoryError p)
      | Inr (File data) \<Rightarrow> Inr data)"

text \<open>\<^verbatim>\<open>open(p, "w+b")\<close> followed by writing \<open>data\<close>: the file is created, or an
  existing one is replaced.\<close>

definition write_file :: "fs \<Rightarrow> path \<Rightarrow> bytes \<Rightarrow> exn + fs" where
  "write_file t p data =
     (if p = [] then Inl (IsADirectoryError p)
      else case stat t (parent p) of
        Inl e \<Rightarrow> Inl (with_filename p e)
      | Inr (File _) \<Rightarrow> Inl (NotADirectoryError p)
      | Inr Dir \<Rightarrow>
          (case map_of t p of
             Some Dir \<Rightarrow> Inl (IsADirectoryError p)
           | _ \<Rightarrow> Inr (AList.update p (File data) t)))"

section \<open>Enumeration: \<^verbatim>\<open>rglob\<close>\<close>

text \<open>
  A shell pattern as \<^verbatim>\<open>fnmatch\<close> reads it: \<^verbatim>\<open>*\<close> matches any run of
  characters (also none, also a leading dot), \<^verbatim>\<open>[...]\<close> one character of the
  listed ones, any other character itself. The match is on the whole name.
\<close>

datatype pat = Star | OneOf "char list" | Lit char

fun fnmatch :: "pat list \<Rightarrow> string \<Rightarrow> bool" where
  "fnmatch [] s = (s = [])"
| "fnmatch (Star # ps) [] = fnmatch ps []"
| "fnmatch (Star # ps) (c # cs) = (fnmatch ps (c # cs) \<or> fnmatch (Star # ps) cs)"
| "fnmatch (OneOf xs # ps) [] = False"
| "fnmatch (OneOf xs # ps) (c # cs) = (c \<in> set xs \<and> fnmatch ps cs)"
| "fnmatch (Lit a # ps) [] = False"
| "fnmatch (Lit a # ps) (c # cs) = (c = a \<and> fnmatch ps cs)"

text \<open>The pattern of the source: \<^verbatim>\<open>'*.[Hh][Ee][Ii][Cc]'\<close>.\<close>

definition heic_pattern :: "pat list" where
  "heic_pattern =
     [Star, Lit CHR ''.'', OneOf ''Hh'', OneOf ''Ee'', OneOf ''Ii'', OneOf ''Cc'']"

text \<open>
  \<^verbatim>\<open>d.rglob(pattern)\<close>: every entry below \<open>d\<close>, at any depth, whose name matches;
  the directory \<open>d\<close> itself is not among them. Regular files and directories are
  entries alike.
\<close>

definition below :: "path \<Rightarrow> path \<Rightarrow> bool" where
  "below d p = (case strip_base p d of Some (c # cs) \<Rightarrow> True | _ \<Rightarrow> False)"

definition rglob :: "fs \<Rightarrow> path \<Rightarrow> pat list \<Rightarrow> path list" where
  "rglob t d pattern = filter (\<lambda>p. below d p \<and> fnmatch pattern (name p)) (map fst t)"

section \<open>Console output\<close>

text \<open>
  What the program prints is kept as the list of its \<^verbatim>\<open>print\<close> and
  \<^verbatim>\<open>print_color\<close> calls, each with the values its text is formatted from.
\<close>

datatype colour = Green | Red | Yellow | Blue

datatype msg =
    Converted string
  | ErrorConverting string exn
  | InputNotFound path
  | NoHeicFound
  | FoundFiles nat
  | Rule
  | ConversionComplete
  | SuccessfullyConverted nat
  | FilesWithErrors nat
  | CheckErrorMessages
  | ImagesAreIn path

datatype line = Print msg | PrintColor msg colour

section \<open>The image codec\<close>

text \<open>
  Pillow is outside the program: \<^verbatim>\<open>Image.open\<close> on the bytes of a file,
  \<^verbatim>\<open>img.convert('RGB')\<close>, and the encoder behind \<^verbatim>\<open>save\<close> with its
  \<^verbatim>\<open>quality\<close>, \<^verbatim>\<open>subsampling\<close> and \<^verbatim>\<open>optimize\<close> arguments. Each either
  delivers its result or raises an exception with a message. \<^verbatim>\<open>save\<close> is taken to
  write the file once the encoder has delivered the whole byte string.
\<close>

record 'img codec =
  image_open :: "bytes \<Rightarrow> string + 'img"
  convert_rgb :: "'img \<Rightarrow> string + 'img"
  save_jpeg :: "'img \<Rightarrow> nat \<Rightarrow> nat \<Rightarrow> bool \<Rightarrow> string + bytes"

section \<open>Converting one file\<close>

text \<open>The value \<^verbatim>\<open>convert_single_heic\<close> returns: \<^verbatim>\<open>(success, filename)\<close>.\<close>

type_synonym outcome = "bool \<times> string"

text \<open>
  The body of the \<^verbatim>\<open>try\<close> block (lines 61 to 83). A call yields the value returned or
  the exception raised, the directory tree it leaves and the lines it printed.
\<close>

definition convert_try ::
  "'img codec \<Rightarrow> path \<Rightarrow> path \<Rightarrow> path \<Rightarrow> fs \<Rightarrow> (exn + outcome) \<times> fs \<times> line list" where
  "convert_try codec heic_file input_dir output_dir t =
     (case relative_to heic_file input_dir of
        Inl e \<Rightarrow> (Inl e, t, [])
      | Inr rel \<Rightarrow>
          (let relative_path = parent rel;
               target_dir = output_dir @ relative_path
           in (case mkdir t target_dir True True of
                 Inl e \<Rightarrow> (Inl e, t, [])
               | Inr t1 \<Rightarrow>
                   (case read_file t1 heic_file of
                      Inl e \<Rightarrow> (Inl e, t1, [])
                    | Inr data \<Rightarrow>
                        (case image_open codec data of
                           Inl m \<Rightarrow> (Inl (CodecError m), t1, [])
                         | Inr img \<Rightarrow>
                             (let jpeg_path = target_dir @ [stem heic_file @ ''.jpg'']
                              in (case convert_rgb codec img of
                                    Inl m \<Rightarrow> (Inl (CodecError m), t1, [])
                                  | Inr rgb_img \<Rightarrow>
                                      (case save_jpeg codec rgb_img 100 0 True of
                                         Inl m \<Rightarrow> (Inl (CodecError m), t1, [])
                                       | Inr encoded \<Rightarrow>
                                           (case write_file t1 jpeg_path encoded of
                                              Inl e \<Rightarrow> (Inl e, t1, [])
                                            | Inr t2 \<Rightarrow>
                                                (Inr (True, name heic_file), t2,
                                                 [PrintColor (Converted (name heic_file))
                                                    Green]))))))))))"

text \<open>\<^verbatim>\<open>try: ... except Exception as e: print_color(...); return (False, heic_file.name)\<close>.\<close>

definition convert_single_heic ::
  "'img codec \<Rightarrow> path \<Rightarrow> path \<Rightarrow> path \<Rightarrow> fs \<Rightarrow> (exn + outcome) \<times> fs \<times> line list" where
  "convert_single_heic codec heic_file input_dir output_dir t =
     (case convert_try codec heic_file input_dir output_dir t of
        (Inr r, t', out) \<Rightarrow> (Inr r, t', out)
      | (Inl e, t', out) \<Rightarrow>
          if is_Exception e
          then (Inr (False, name heic_file), t',
                out @ [PrintColor (ErrorConverting (name heic_file) e) Red])
          else (Inl e, t', out))"

section \<open>The worker pool\<close>

text \<open>
  \<^verbatim>\<open>executor.map(f, xs)\<close> submits one future per element, in order; the pool's
  workers take the queued calls first in, first out, so the calls in progress are the
  first \<open>min w (length pending)\<close> unfinished ones. Each call acts on the directory tree
  as a whole; which of the calls in progress completes next is the scheduler's choice,
  given by \<open>sched\<close> (one number per completion, read modulo the number of calls in
  progress). A completed call stores its value or its exception in its future.
\<close>

function pool_loop ::
  "nat \<Rightarrow> nat list \<Rightarrow> ('a \<Rightarrow> fs \<Rightarrow> (exn + 'b) \<times> fs \<times> line list) \<Rightarrow> (nat \<times> 'a) list \<Rightarrow>
   (nat \<rightharpoonup> exn + 'b) \<Rightarrow> fs \<Rightarrow> line list \<Rightarrow> (nat \<rightharpoonup> exn + 'b) \<times> fs \<times> line list" where
  "pool_loop w sched f pending futs t out =
     (if w = 0 \<or> pending = [] then (futs, t, out)
      else
        let k = (case sched of [] \<Rightarrow> 0 | c # _ \<Rightarrow> c mod min w (length pending));
            i = fst (pending ! k);
            x = snd (pending ! k)
        in case f x t of
          (v, t', out') \<Rightarrow>
            pool_loop w (tl sched) f (take k pending @ drop (Suc k) pending)
              (futs(i \<mapsto> v)) t' (out @ out'))"
  by pat_completeness auto
termination
proof (relation "measure (\<lambda>(w, sched, f, pending, futs, t, out). length pending)")
  show "wf (measure (\<lambda>(w, sched, f, pending, futs, t, out). length pending))"
    by simp
next
  fix w :: nat and sched :: "nat list" and pending :: "(nat \<times> 'a) list" and k :: nat
  assume "\<not> (w = 0 \<or> pending = [])"
    and k: "k = (case sched of [] \<Rightarrow> 0 | c # x \<Rightarrow> c mod min w (length pending))"
  then have "k < length pending"
    by (cases sched) (auto intro: less_le_trans [OF mod_less_divisor])
  then show "\<And>f futs t out i x xa xb y xc ya.
      ((w, tl sched, f, take k pending @ drop (Suc k) pending, futs(i \<mapsto> xb), xc, out @ ya),
       (w, sched, f, pending, futs, t, out))
      \<in> measure (\<lambda>(w, sched, f, pending, futs, t, out). length pending)"
    by auto
qed

declare pool_loop.simps [simp del]

text \<open>
  The iterator \<^verbatim>\<open>executor.map\<close> returns reads the futures in submission order:
  \<^verbatim>\<open>future.result()\<close> is the stored value, re-raises the stored exception, and never
  returns (\<open>None\<close>) on a future no worker completes.
\<close>

fun collect :: "(nat \<rightharpoonup> exn + 'b) \<Rightarrow> nat list \<Rightarrow> (exn + 'b list) option" where
  "collect futs [] = Some (Inr [])"
| "collect futs (i # is) =
     (case futs i of
        None \<Rightarrow> None
      | Some (Inl e) \<Rightarrow> Some (Inl e)
      | Some (Inr r) \<Rightarrow>
          (case collect futs is of
             None \<Rightarrow> None
           | Some (Inl e) \<Rightarrow> Some (Inl e)
           | Some (Inr rs) \<Rightarrow> Some (Inr (r # rs))))"

text \<open>
  \<^verbatim>\<open>with ThreadPoolExecutor(max_workers=w) as executor: list(executor.map(f, xs))\<close>.
  The constructor raises \<^verbatim>\<open>ValueError\<close> unless \<open>w\<close> is positive.
\<close>

definition executor_map ::
  "int \<Rightarrow> nat list \<Rightarrow> ('a \<Rightarrow> fs \<Rightarrow> (exn + 'b) \<times> fs \<times> line list) \<Rightarrow> 'a list \<Rightarrow> fs \<Rightarrow>
   (exn + 'b list) option \<times> fs \<times> line list" where
  "executor_map w sched f xs t =
     (if w \<le> 0 then (Some (Inl ValueError_max_workers), t, [])
      else case pool_loop (nat w) sched f (zip [0..<length xs] xs) Map.empty t [] of
        (futs, t', out) \<Rightarrow> (collect futs [0..<length xs], t', out))"

section \<open>Worker-pool size\<close>

text \<open>
  \<^verbatim>\<open>max_workers = min(32, os.cpu_count() or 4)\<close>: \<^verbatim>\<open>os.cpu_count()\<close> is \<^verbatim>\<open>None\<close>
  when the count is undetermined, and \<^verbatim>\<open>x or 4\<close> is 4 for every falsy \<^verbatim>\<open>x\<close>
  (\<^verbatim>\<open>None\<close> and 0).
\<close>

definition max_workers :: "int option \<Rightarrow> int" where
  "max_workers cpu_count =
     min 32 (case cpu_count of None \<Rightarrow> 4 | Some n \<Rightarrow> if n = 0 then 4 else n)"

section \<open>The batch\<close>

text \<open>
  \<^verbatim>\<open>convert_heic_to_jpeg\<close> returns nothing; the model returns what the call arrived
  at, with the local variables \<^verbatim>\<open>heic_files\<close> and \<^verbatim>\<open>results\<close> of a completed
  batch. \<open>input_dir\<close> is the input path after \<^verbatim>\<open>resolve()\<close>, \<open>output_folder\<close> the
  components of the output folder's relative name.
\<close>

datatype report = NotFound | NoFiles | Completed "path list" "outcome list"

definition convert_heic_to_jpeg ::
  "'img codec \<Rightarrow> int option \<Rightarrow> nat list \<Rightarrow> path \<Rightarrow> path \<Rightarrow> fs \<Rightarrow>
   (exn + report) option \<times> fs \<times> line list" where
  "convert_heic_to_jpeg codec cpu_count sched input_dir output_folder t =
     (if \<not> exists t input_dir
      then (Some (Inr NotFound), t, [PrintColor (InputNotFound input_dir) Red])
      else
        (let output_dir = input_dir @ output_folder
         in (case mkdir t output_dir True True of
               Inl e \<Rightarrow> (Some (Inl e), t, [])
             | Inr t1 \<Rightarrow>
                 (let heic_files = rglob t1 input_dir heic_pattern
                  in if heic_files = []
                     then (Some (Inr NoFiles), t1, [PrintColor NoHeicFound Yellow])
                     else
                       (let found = [PrintColor (FoundFiles (length heic_files)) Blue]
                        in (case executor_map (max_workers cpu_count) sched
                                   (\<lambda>f. convert_single_heic codec f input_dir output_dir)
                                   heic_files t1 of
                              (None, t2, out) \<Rightarrow> (None, t2, found @ out)
                            | (Some (Inl e), t2, out) \<Rightarrow> (Some (Inl e), t2, found @ out)
                            | (Some (Inr results), t2, out) \<Rightarrow>
                                (let converted = length (filter fst results);
                                     errors = length results - converted
                                 in (Some (Inr (Completed heic_files results)), t2,
                                     found @ out @
                                     [Print Rule, PrintColor ConversionComplete Blue,
                                      PrintColor (SuccessfullyConverted converted) Green] @
                                     (if errors > 0
                                      then [PrintColor (FilesWithErrors errors) Red,
                                            PrintColor CheckErrorMessages Yellow]
                                      else []) @
                                     [PrintColor (ImagesAreIn output_dir) Blue,
                                      Print Rule]))))))))"

section \<open>Notions the properties are stated with\<close>

text \<open>A regular file is listed at \<open>p\<close>; a regular file lies at \<open>p\<close> or at one of
  the directories leading to it, so that no directory can be made at \<open>p\<close>.\<close>

definition holds_file :: "fs \<Rightarrow> path \<Rightarrow> bool" where
  "holds_file t p = (case lookup t p of Some (File _) \<Rightarrow> True | _ \<Rightarrow> False)"

definition blocked :: "fs \<Rightarrow> path \<Rightarrow> bool" where
  "blocked t p = list_ex (holds_file t) (prefixes p)"

text \<open>
  The specification's selection rule for the enumerator: the name ends in a dot and the
  four letters of the source extension, each in either case.
\<close>

definition has_heic_extension :: "string \<Rightarrow> bool" where
  "has_heic_extension n =
     (case rev n of
        c # i # e # h # d # _ \<Rightarrow>
          d = CHR ''.'' \<and> h \<in> set ''Hh'' \<and> e \<in> set ''Ee'' \<and> i \<in> set ''Ii'' \<and> c \<in> set ''Cc''
      | _ \<Rightarrow> False)"

text \<open>
  For a source \<open>f\<close> below the input directory: the directory its output goes to and the
  path of its output file, as lines 61, 62 and 68 compute them.
\<close>

definition target_dir_of :: "path \<Rightarrow> path \<Rightarrow> path \<Rightarrow> path" where
  "target_dir_of input_dir output_dir f = output_dir @ parent (drop (length input_dir) f)"

definition jpeg_path_of :: "path \<Rightarrow> path \<Rightarrow> path \<Rightarrow> path" where
  "jpeg_path_of input_dir output_dir f =
     target_dir_of input_dir output_dir f @ [stem f @ ''.jpg'']"



text \<open>
  The output file paths of a batch: the output path of every enumerated file whose
  outcome is a success; none for a batch that did not complete. The regular files of a
  tree.
\<close>

definition written :: "path \<Rightarrow> path \<Rightarrow> (exn + report) option \<Rightarrow> path list" where
  "written input_dir output_dir r =
     (case r of
        Some (Inr (Completed heic_files results)) \<Rightarrow>
          map (\<lambda>(f, outcome). jpeg_path_of input_dir output_dir f)
            (filter (\<lambda>(f, outcome). fst outcome) (zip heic_files results))
      | _ \<Rightarrow> [])"


text \<open>
  One tree grows into another: directories stay directories, regular files stay regular
  files and keep their bytes unless their name ends in \<^verbatim>\<open>.jpg\<close>, and every regular
  file that is new has such a name.
\<close>

definition jpg_named :: "path \<Rightarrow> bool" where
  "jpg_named p = suffix ''.jpg'' (name p)"

definition grows :: "fs \<Rightarrow> fs \<Rightarrow> bool" where
  "grows a b =
     (\<forall>p. case lookup a p of
            Some Dir \<Rightarrow> lookup b p = Some Dir
          | Some (File data) \<Rightarrow>
              holds_file b p \<and> (\<not> jpg_named p \<longrightarrow> lookup b p = Some (File data))
          | None \<Rightarrow> holds_file b p \<longrightarrow> jpg_named p)"


section \<open>A sample tree and sample codecs\<close>

text \<open>
  The scenario of the specification: \<^verbatim>\<open>A/photo1.HEIC\<close>, \<^verbatim>\<open>A/B/photo2.heic\<close> and
  \<^verbatim>\<open>C/doc.txt\<close> in the input directory \<^verbatim>\<open>/in\<close>.
\<close>

definition example_tree :: fs where
  "example_tree =
     [([''in''], Dir),
      ([''in'', ''A''], Dir),
      ([''in'', ''A'', ''photo1.HEIC''], File ''heic-1''),
      ([''in'', ''A'', ''B''], Dir),
      ([''in'', ''A'', ''B'', ''photo2.heic''], File ''heic-2''),
      ([''in'', ''C''], Dir),
      ([''in'', ''C'', ''doc.txt''], File ''text'')]"

text \<open>A codec that decodes every file, and one whose decoder rejects every file with a
  given message.\<close>

definition example_codec :: "bytes codec" where
  "example_codec =
     \<lparr>image_open = (\<lambda>data. Inr data),
      convert_rgb = (\<lambda>img. Inr img),
      save_jpeg = (\<lambda>img quality subsampling optimize. Inr (''jpeg of '' @ img))\<rparr>"

definition rejecting_codec :: "string \<Rightarrow> bytes codec" where
  "rejecting_codec m =
     \<lparr>image_open = (\<lambda>data. Inl m),
      convert_rgb = (\<lambda>img. Inr img),
      save_jpeg = (\<lambda>img quality subsampling optimize. Inr (''jpeg of '' @ img))\<rparr>"


text \<open>An input directory that holds a directory named like a photo.\<close>

definition album_tree :: fs where
  "album_tree =
     [([''in''], Dir),
      ([''in'', ''album.heic''], Dir),
      ([''in'', ''album.heic'', ''photo.HEIC''], File ''heic-1''),
      ([''in'', ''notes.txt''], File ''text'')]"



section \<open>Properties\<close>

subsection \<open>Well-formed trees and path resolution\<close>

lemma lookup_root [simp]: "lookup t [] = Some Dir"
  by (simp add: lookup_def)

lemma lookup_update:
  "p \<noteq> [] \<Longrightarrow> lookup (AList.update p n t) q = (if q = p then Some n else lookup t q)"
  by (simp add: lookup_def update_conv')

lemma wf_fs_iff:
  "wf_fs t \<longleftrightarrow> distinct (map fst t) \<and> map_of t [] = None \<and>
     (\<forall>p n. map_of t p = Some n \<longrightarrow> lookup t (butlast p) = Some Dir)"
proof -
  have "list_all (\<lambda>p. lookup t (butlast p) = Some Dir) (map fst t) \<longleftrightarrow>
        (\<forall>p n. map_of t p = Some n \<longrightarrow> lookup t (butlast p) = Some Dir)"
  proof
    assume a: "list_all (\<lambda>p. lookup t (butlast p) = Some Dir) (map fst t)"
    show "\<forall>p n. map_of t p = Some n \<longrightarrow> lookup t (butlast p) = Some Dir"
    proof (intro allI impI)
      fix p n assume "map_of t p = Some n"
      then have "(p, n) \<in> set t" by (rule map_of_SomeD)
      then have "p \<in> set (map fst t)" by force
      with a show "lookup t (butlast p) = Some Dir" by (auto simp: list_all_iff)
    qed
  next
    assume a: "\<forall>p n. map_of t p = Some n \<longrightarrow> lookup t (butlast p) = Some Dir"
    show "list_all (\<lambda>p. lookup t (butlast p) = Some Dir) (map fst t)"
      unfolding list_all_iff
    proof
      fix p assume "p \<in> set (map fst t)"
      then obtain n where "(p, n) \<in> set t" by auto
      then obtain m where "map_of t p = Some m" by (auto dest: weak_map_of_SomeI)
      with a show "lookup t (butlast p) = Some Dir" by blast
    qed
  qed
  moreover have "[] \<notin> set (map fst t) \<longleftrightarrow> map_of t [] = None"
    by (simp add: map_of_eq_None_iff)
  ultimately show ?thesis by (simp add: wf_fs_def)
qed

lemma wf_parent_dir:
  "wf_fs t \<Longrightarrow> lookup t p = Some n \<Longrightarrow> lookup t (butlast p) = Some Dir"
  by (cases "p = []") (auto simp: wf_fs_iff lookup_def)

lemma wf_prefix_dir:
  "wf_fs t \<Longrightarrow> lookup t p = Some n \<Longrightarrow> k < length p \<Longrightarrow> lookup t (take k p) = Some Dir"
proof (induction p arbitrary: n rule: rev_induct)
  case Nil
  then show ?case by simp
next
  case (snoc c q)
  from snoc.prems(1,2) have q: "lookup t q = Some Dir"
    using wf_parent_dir by fastforce
  show ?case
  proof (cases "k < length q")
    case True
    with snoc.IH [OF snoc.prems(1) q] show ?thesis by simp
  next
    case False
    with snoc.prems(3) have "k = length q" by simp
    with q show ?thesis by simp
  qed
qed

lemma wf_fs_update:
  assumes "wf_fs t" and "p \<noteq> []" and "lookup t (butlast p) = Some Dir"
    and "lookup t p \<noteq> Some Dir \<or> n = Dir"
  shows "wf_fs (AList.update p n t)"
proof -
  have "lookup (AList.update p n t) (butlast q) = Some Dir"
    if "map_of (AList.update p n t) q = Some m" for q m
  proof (cases "q = p")
    case True
    show ?thesis
    proof (cases "butlast p = p")
      case True
      with assms(2) show ?thesis by (cases p rule: rev_cases) auto
    next
      case False
      with assms(2,3) True show ?thesis by (simp add: lookup_update)
    qed
  next
    case False
    with that have q: "map_of t q = Some m" by (simp add: update_conv')
    with assms(1) have d: "lookup t (butlast q) = Some Dir" by (simp add: wf_fs_iff)
    show ?thesis
    proof (cases "butlast q = p")
      case True
      with d assms(4) assms(2) show ?thesis by (auto simp: lookup_update)
    next
      case False
      with d assms(2) show ?thesis by (simp add: lookup_update)
    qed
  qed
  with assms(1,2) show ?thesis
    by (auto simp: wf_fs_iff update_conv' distinct_update)
qed


lemma blocked_iff: "blocked t p \<longleftrightarrow> (\<exists>q. prefix q p \<and> holds_file t q)"
  by (auto simp: blocked_def list_ex_iff in_set_prefixes)

lemma holds_file_iff: "holds_file t p \<longleftrightarrow> (\<exists>c. lookup t p = Some (File c))"
  by (auto simp: holds_file_def split: option.splits node.splits)

lemma wf_prefix_dir':
  assumes "wf_fs t" and "lookup t p = Some n" and "prefix q p" and "q \<noteq> p"
  shows "lookup t q = Some Dir"
proof -
  from assms(3,4) obtain r where "p = q @ r" "r \<noteq> []" by (auto simp: prefix_def)
  then have "q = take (length q) p" "length q < length p" by auto
  with wf_prefix_dir [OF assms(1,2), of "length q"] show ?thesis by simp
qed

lemma walk_spec:
  assumes "wf_fs t" and "lookup t cur = Some n"
  shows "case walk t cur n cs of
           Inr m \<Rightarrow> lookup t (cur @ cs) = Some m
         | Inl e \<Rightarrow> lookup t (cur @ cs) = None \<and>
             (if blocked t (cur @ cs) then e = NotADirectoryError (cur @ cs)
              else e = FileNotFoundError (cur @ cs))"
  using assms(2)
proof (induction cs arbitrary: cur n)
  case Nil
  then show ?case by simp
next
  case (Cons c cs)
  have none: "lookup t (cur @ c # cs) = None" if "lookup t (cur @ [c]) \<noteq> Some Dir" "cs \<noteq> [] \<or> lookup t (cur @ [c]) = None"
  proof (rule ccontr)
    assume "lookup t (cur @ c # cs) \<noteq> None"
    then obtain m where m: "lookup t (cur @ c # cs) = Some m" by auto
    show False
    proof (cases "cs = []")
      case True
      with m that show False by simp
    next
      case False
      then have "prefix (cur @ [c]) (cur @ c # cs)" "cur @ [c] \<noteq> cur @ c # cs" by auto
      from wf_prefix_dir' [OF assms(1) m this] that show False by simp
    qed
  qed
  show ?case
  proof (cases n)
    case (File d)
    have "prefix cur (cur @ c # cs)" "cur \<noteq> cur @ c # cs" by auto
    then have "lookup t (cur @ c # cs) = None"
      using wf_prefix_dir' [OF assms(1) _ \<open>prefix cur (cur @ c # cs)\<close>] Cons.prems File
      by (cases "lookup t (cur @ c # cs)") auto
    moreover have "blocked t (cur @ c # cs)"
      unfolding blocked_iff holds_file_iff using Cons.prems File by (intro exI [of _ cur]) auto
    ultimately show ?thesis using File by simp
  next
    case Dir
    show ?thesis
    proof (cases "map_of t (cur @ [c])")
      case None
      then have l: "lookup t (cur @ [c]) = None" by (simp add: lookup_def)
      have n1: "lookup t (cur @ c # cs) = None" using none l by simp
      have "\<not> blocked t (cur @ c # cs)"
      proof
        assume "blocked t (cur @ c # cs)"
        then obtain q d where q: "prefix q (cur @ c # cs)" "lookup t q = Some (File d)"
          unfolding blocked_iff holds_file_iff by auto
        show False
        proof (cases "prefix q cur")
          case True
          then show False
            using wf_prefix_dir' [OF assms(1) Cons.prems True] q(2) Cons.prems Dir by (cases "q = cur") auto
        next
          case False
          with q(1) obtain us where us: "q = cur @ us" "prefix us (c # cs)"
            by (auto simp: prefix_append)
          with False have "us \<noteq> []" by auto
          with us(2) obtain us' where "us = c # us'" by (cases us) auto
          with us(1) have "prefix (cur @ [c]) q" by simp
          then show False using wf_prefix_dir' [OF assms(1) q(2), of "cur @ [c]"] l q(2)
            by (cases "cur @ [c] = q") auto
        qed
      qed
      with n1 None Dir show ?thesis by simp
    next
      case (Some n')
      then have "lookup t (cur @ [c]) = Some n'" by (simp add: lookup_def)
      from Cons.IH [OF this] Some Dir show ?thesis by (auto split: sum.splits)
    qed
  qed
qed

lemma stat_Inr: "wf_fs t \<Longrightarrow> stat t p = Inr n \<longleftrightarrow> lookup t p = Some n"
  using walk_spec [of t "[]" Dir p] by (auto simp: stat_def split: sum.splits if_splits)

lemma stat_Inl:
  "wf_fs t \<Longrightarrow> stat t p = Inl e \<Longrightarrow>
   lookup t p = None \<and> e = (if blocked t p then NotADirectoryError p else FileNotFoundError p)"
  using walk_spec [of t "[]" Dir p] by (auto simp: stat_def split: sum.splits if_splits)

subsection \<open>Creating directories\<close>

lemma is_dir_iff:
  assumes "wf_fs t"
  shows "is_dir t p \<longleftrightarrow> lookup t p = Some Dir"
proof (cases "stat t p")
  case (Inl e)
  from stat_Inl [OF assms Inl] have "lookup t p = None" by simp
  with Inl show ?thesis by (simp add: is_dir_def)
next
  case (Inr n)
  with assms have "lookup t p = Some n" by (simp add: stat_Inr)
  with Inr show ?thesis by (simp add: is_dir_def split: node.splits)
qed

lemma exists_iff:
  assumes "wf_fs t"
  shows "exists t p \<longleftrightarrow> lookup t p \<noteq> None"
proof (cases "stat t p")
  case (Inl e)
  from stat_Inl [OF assms Inl] have "lookup t p = None" by simp
  with Inl show ?thesis by (simp add: exists_def)
next
  case (Inr n)
  with assms have "lookup t p = Some n" by (simp add: stat_Inr)
  with Inr show ?thesis by (simp add: exists_def)
qed

lemma lookup_map_of: "p \<noteq> [] \<Longrightarrow> map_of t p = lookup t p"
  by (simp add: lookup_def)

lemma os_mkdir_spec:
  assumes "wf_fs t"
  shows "os_mkdir t p =
     (if p = [] then Inl (FileExistsError p)
      else case lookup t (butlast p) of
        Some Dir \<Rightarrow> (if lookup t p = None then Inr (AList.update p Dir t)
                     else Inl (FileExistsError p))
      | Some (File d) \<Rightarrow> Inl (NotADirectoryError p)
      | None \<Rightarrow> (if blocked t (butlast p) then Inl (NotADirectoryError p)
                  else Inl (FileNotFoundError p)))"
proof (cases "stat t (butlast p)")
  case (Inl e)
  from stat_Inl [OF assms Inl] Inl show ?thesis
    by (auto simp: os_mkdir_def parent_def)
next
  case (Inr n)
  with assms have "lookup t (butlast p) = Some n" by (simp add: stat_Inr)
  with Inr show ?thesis
    by (auto simp: os_mkdir_def parent_def lookup_map_of split: node.splits option.splits)
qed

lemma mkdir_existing:
  assumes "wf_fs t" and "lookup t p = Some Dir"
  shows "mkdir t p ps True = Inr t"
proof -
  have "lookup t (butlast p) = Some Dir" using assms by (rule wf_parent_dir)
  with assms show ?thesis
    by (subst mkdir.simps) (simp add: os_mkdir_spec is_dir_iff)
qed

lemma mkdir_creates:
  assumes "wf_fs t" and "p \<noteq> []" and "lookup t (butlast p) = Some Dir" and "lookup t p = None"
  shows "mkdir t p ps ok = Inr (AList.update p Dir t)"
  using assms by (subst mkdir.simps) (simp add: os_mkdir_spec)

lemma mkdir_recurses:
  assumes "wf_fs t" and "p \<noteq> []" and "lookup t (butlast p) = None" and "\<not> blocked t (butlast p)"
  shows "mkdir t p True ok =
     (case mkdir t (butlast p) True True of Inl e \<Rightarrow> Inl e | Inr t1 \<Rightarrow> mkdir t1 p False ok)"
  using assms by (subst mkdir.simps) (simp add: os_mkdir_spec parent_def)

lemma blocked_butlast: "blocked t (butlast p) \<Longrightarrow> blocked t p"
  unfolding blocked_iff by (metis prefix_order.trans prefixeq_butlast)



lemma mkdir_free:
  assumes "wf_fs t" and "\<not> blocked t p"
  shows "\<exists>t'. mkdir t p True True = Inr t' \<and> wf_fs t' \<and>
           (\<forall>q. lookup t' q = (if prefix q p then Some Dir else lookup t q))"
  using assms(2)
proof (induction p rule: rev_induct)
  case Nil
  have "mkdir t [] True True = Inr t" using assms(1) by (simp add: mkdir_existing)
  with assms(1) show ?case by auto
next
  case (snoc c p)
  let ?pc = "p @ [c]"
  from snoc.prems have nb: "\<not> blocked t p" using blocked_butlast [of t ?pc] by auto
  from snoc.prems have nf: "lookup t q \<noteq> Some (File d)" if "prefix q ?pc" for q d
    using that unfolding blocked_iff holds_file_iff by auto
  show ?case
  proof (cases "lookup t ?pc")
    case (Some n)
    with nf [of ?pc] have d: "lookup t ?pc = Some Dir" by (cases n) auto
    have "lookup t q = Some Dir" if "prefix q ?pc" for q
      using wf_prefix_dir' [OF assms(1) d that] d by (cases "q = ?pc") auto
    then have "\<forall>q. lookup t q = (if prefix q ?pc then Some Dir else lookup t q)" by simp
    with mkdir_existing [OF assms(1) d] assms(1) show ?thesis by blast
  next
    case None
    show ?thesis
    proof (cases "lookup t p")
      case (Some n)
      with nf [of p] have d: "lookup t p = Some Dir" by (cases n) auto
      have all: "lookup t q = Some Dir" if "prefix q p" for q
        using wf_prefix_dir' [OF assms(1) d that] d by (cases "q = p") auto
      have mk: "mkdir t ?pc True True = Inr (AList.update ?pc Dir t)"
        using assms(1) d None by (intro mkdir_creates) auto
      have wf: "wf_fs (AList.update ?pc Dir t)"
        using assms(1) d by (intro wf_fs_update) auto
      have "lookup (AList.update ?pc Dir t) q = (if prefix q ?pc then Some Dir else lookup t q)" for q
        using all [of q] by (auto simp: lookup_update)
      with mk wf show ?thesis by blast
    next
      case pNone: None
      from snoc.IH [OF nb] obtain t1 where t1: "mkdir t p True True = Inr t1" "wf_fs t1"
        "\<And>q. lookup t1 q = (if prefix q p then Some Dir else lookup t q)" by auto
      have l1: "lookup t1 p = Some Dir" "lookup t1 ?pc = None"
        using t1(3) [of p] t1(3) [of ?pc] None by auto
      have "mkdir t ?pc True True = mkdir t1 ?pc False True"
        using mkdir_recurses [OF assms(1), of ?pc True] pNone nb t1(1) by simp
      also have "\<dots> = Inr (AList.update ?pc Dir t1)"
        using t1(2) l1 by (intro mkdir_creates) auto
      finally have mk: "mkdir t ?pc True True = Inr (AList.update ?pc Dir t1)" .
      have wf: "wf_fs (AList.update ?pc Dir t1)"
        using t1(2) l1 by (intro wf_fs_update) auto
      have "lookup (AList.update ?pc Dir t1) q = (if prefix q ?pc then Some Dir else lookup t q)" for q
        using t1(3) [of q] by (auto simp: lookup_update)
      with mk wf show ?thesis by blast
    qed
  qed
qed

subsection \<open>Reading, writing and the steps of a conversion\<close>




lemma strip_base_iff: "strip_base p b = Some r \<longleftrightarrow> p = b @ r"
  by (induction p b rule: strip_base.induct) auto





subsection \<open>The pattern and the enumeration\<close>

lemma fnmatch_Star: "fnmatch (Star # ps) s \<longleftrightarrow> (\<exists>k\<le>length s. fnmatch ps (drop k s))"
proof (induction s)
  case Nil
  then show ?case by simp
next
  case (Cons c cs)
  have "(\<exists>k\<le>length (c # cs). fnmatch ps (drop k (c # cs))) \<longleftrightarrow>
        fnmatch ps (c # cs) \<or> (\<exists>k\<le>length cs. fnmatch ps (drop k cs))"
  proof
    assume "\<exists>k\<le>length (c # cs). fnmatch ps (drop k (c # cs))"
    then obtain k where k: "k \<le> length (c # cs)" "fnmatch ps (drop k (c # cs))" by blast
    then show "fnmatch ps (c # cs) \<or> (\<exists>k\<le>length cs. fnmatch ps (drop k cs))"
      by (cases k) auto
  next
    assume "fnmatch ps (c # cs) \<or> (\<exists>k\<le>length cs. fnmatch ps (drop k cs))"
    then show "\<exists>k\<le>length (c # cs). fnmatch ps (drop k (c # cs))"
    proof
      assume "fnmatch ps (c # cs)"
      then show ?thesis by (intro exI [of _ 0]) simp
    next
      assume "\<exists>k\<le>length cs. fnmatch ps (drop k cs)"
      then obtain k where "k \<le> length cs" "fnmatch ps (drop k cs)" by blast
      then show ?thesis by (intro exI [of _ "Suc k"]) simp
    qed
  qed
  with Cons show ?case by simp
qed

lemma fnmatch_extension:
  "fnmatch [Lit CHR ''.'', OneOf ''Hh'', OneOf ''Ee'', OneOf ''Ii'', OneOf ''Cc''] s \<longleftrightarrow>
   (\<exists>h e i c. s = [CHR ''.'', h, e, i, c] \<and>
      h \<in> set ''Hh'' \<and> e \<in> set ''Ee'' \<and> i \<in> set ''Ii'' \<and> c \<in> set ''Cc'')"
proof (cases s)
  case Nil
  then show ?thesis by simp
next
  case s1: (Cons a1 r1)
  show ?thesis
  proof (cases r1)
    case Nil
    with s1 show ?thesis by simp
  next
    case s2: (Cons a2 r2)
    show ?thesis
    proof (cases r2)
      case Nil
      with s1 s2 show ?thesis by simp
    next
      case s3: (Cons a3 r3)
      show ?thesis
      proof (cases r3)
        case Nil
        with s1 s2 s3 show ?thesis by simp
      next
        case s4: (Cons a4 r4)
        show ?thesis
        proof (cases r4)
          case Nil
          with s1 s2 s3 s4 show ?thesis by simp
        next
          case s5: (Cons a5 r5)
          with s1 s2 s3 s4 show ?thesis by auto
        qed
      qed
    qed
  qed
qed

lemma has_heic_extension_iff:
  "has_heic_extension n \<longleftrightarrow>
   (\<exists>b h e i c. n = b @ [CHR ''.'', h, e, i, c] \<and>
      h \<in> set ''Hh'' \<and> e \<in> set ''Ee'' \<and> i \<in> set ''Ii'' \<and> c \<in> set ''Cc'')"
proof
  assume "has_heic_extension n"
  then obtain c i e h d r where r: "rev n = c # i # e # h # d # r"
    and m: "d = CHR ''.''" "h \<in> set ''Hh''" "e \<in> set ''Ee''" "i \<in> set ''Ii''" "c \<in> set ''Cc''"
    by (auto simp: has_heic_extension_def split: list.splits)
  from r have "n = rev r @ [d, h, e, i, c]" by (simp add: rev_eq_Cons_iff rev_swap)
  with m show "\<exists>b h e i c. n = b @ [CHR ''.'', h, e, i, c] \<and>
      h \<in> set ''Hh'' \<and> e \<in> set ''Ee'' \<and> i \<in> set ''Ii'' \<and> c \<in> set ''Cc''" by blast
next
  assume "\<exists>b h e i c. n = b @ [CHR ''.'', h, e, i, c] \<and>
      h \<in> set ''Hh'' \<and> e \<in> set ''Ee'' \<and> i \<in> set ''Ii'' \<and> c \<in> set ''Cc''"
  then show "has_heic_extension n"
    by (auto simp: has_heic_extension_def)
qed

lemma fnmatch_heic_pattern: "fnmatch heic_pattern n \<longleftrightarrow> has_heic_extension n"
proof -
  have "fnmatch heic_pattern n \<longleftrightarrow>
    (\<exists>k\<le>length n. \<exists>h e i c. drop k n = [CHR ''.'', h, e, i, c] \<and>
      h \<in> set ''Hh'' \<and> e \<in> set ''Ee'' \<and> i \<in> set ''Ii'' \<and> c \<in> set ''Cc'')"
    unfolding heic_pattern_def fnmatch_Star fnmatch_extension by blast
  also have "\<dots> \<longleftrightarrow> (\<exists>b h e i c. n = b @ [CHR ''.'', h, e, i, c] \<and>
      h \<in> set ''Hh'' \<and> e \<in> set ''Ee'' \<and> i \<in> set ''Ii'' \<and> c \<in> set ''Cc'')"
  proof
    assume "\<exists>k\<le>length n. \<exists>h e i c. drop k n = [CHR ''.'', h, e, i, c] \<and>
      h \<in> set ''Hh'' \<and> e \<in> set ''Ee'' \<and> i \<in> set ''Ii'' \<and> c \<in> set ''Cc''"
    then obtain k h e i c where k: "drop k n = [CHR ''.'', h, e, i, c]"
      and m: "h \<in> set ''Hh''" "e \<in> set ''Ee''" "i \<in> set ''Ii''" "c \<in> set ''Cc''" by blast
    have "n = take k n @ drop k n" by simp
    with k have "n = take k n @ [CHR ''.'', h, e, i, c]" by simp
    with m show "\<exists>b h e i c. n = b @ [CHR ''.'', h, e, i, c] \<and>
      h \<in> set ''Hh'' \<and> e \<in> set ''Ee'' \<and> i \<in> set ''Ii'' \<and> c \<in> set ''Cc''" by blast
  next
    assume "\<exists>b h e i c. n = b @ [CHR ''.'', h, e, i, c] \<and>
      h \<in> set ''Hh'' \<and> e \<in> set ''Ee'' \<and> i \<in> set ''Ii'' \<and> c \<in> set ''Cc''"
    then obtain b h e i c where n: "n = b @ [CHR ''.'', h, e, i, c]"
      and m: "h \<in> set ''Hh''" "e \<in> set ''Ee''" "i \<in> set ''Ii''" "c \<in> set ''Cc''" by blast
    from n have "length b \<le> length n" "drop (length b) n = [CHR ''.'', h, e, i, c]" by auto
    with m show "\<exists>k\<le>length n. \<exists>h e i c. drop k n = [CHR ''.'', h, e, i, c] \<and>
      h \<in> set ''Hh'' \<and> e \<in> set ''Ee'' \<and> i \<in> set ''Ii'' \<and> c \<in> set ''Cc''" by blast
  qed
  finally show ?thesis by (simp add: has_heic_extension_iff)
qed

lemma heic_pattern_sixteen_cases:
  "list_all (\<lambda>ext. fnmatch heic_pattern (''photo'' @ ext))
     [''.heic'', ''.heiC'', ''.heIc'', ''.heIC'', ''.hEic'', ''.hEiC'', ''.hEIc'', ''.hEIC'',
      ''.Heic'', ''.HeiC'', ''.HeIc'', ''.HeIC'', ''.HEic'', ''.HEiC'', ''.HEIc'', ''.HEIC'']"
  by (simp add: fnmatch_heic_pattern has_heic_extension_def)

lemma below_iff: "below d p \<longleftrightarrow> (\<exists>r. r \<noteq> [] \<and> p = d @ r)"
proof (cases "strip_base p d")
  case None
  then have "\<And>r. p \<noteq> d @ r" using strip_base_iff [of p d] by auto
  with None show ?thesis by (simp add: below_def)
next
  case (Some r)
  then have "p = d @ r" by (simp add: strip_base_iff)
  with Some show ?thesis by (cases r) (auto simp: below_def)
qed

lemma listed_iff: "wf_fs t \<Longrightarrow> p \<in> set (map fst t) \<longleftrightarrow> p \<noteq> [] \<and> lookup t p \<noteq> None"
  by (cases "p = []") (auto simp: wf_fs_iff lookup_def map_of_eq_None_iff)

lemma set_rglob:
  "wf_fs t \<Longrightarrow> set (rglob t d heic_pattern) =
     {p. below d p \<and> lookup t p \<noteq> None \<and> has_heic_extension (name p)}"
  using listed_iff [of t] by (auto simp: rglob_def fnmatch_heic_pattern below_iff)

lemma distinct_rglob: "wf_fs t \<Longrightarrow> distinct (rglob t d pattern)"
  by (simp add: rglob_def wf_fs_def)

subsection \<open>Exceptions raised inside the converter\<close>

lemma walk_raises_Exception: "walk t cur n cs = Inl e \<Longrightarrow> is_Exception e"
  by (induction cs arbitrary: cur n) (auto split: node.splits option.splits)

lemma with_filename_Exception [simp]: "is_Exception (with_filename p e) = is_Exception e"
  by (cases e) auto

lemma os_mkdir_raises_Exception: "os_mkdir t p = Inl e \<Longrightarrow> is_Exception e"
  by (auto simp: os_mkdir_def stat_def split: if_splits sum.splits node.splits option.splits
      dest: walk_raises_Exception)

lemma mkdir_raises_Exception: "mkdir t p ps ok = Inl e \<Longrightarrow> is_Exception e"
proof (induction t p ps ok rule: mkdir.induct)
  case (1 t p parents exist_ok)
  from "1.prems" show ?case
    apply (subst (asm) mkdir.simps)
    apply (auto split: sum.splits exn.splits if_splits dest: os_mkdir_raises_Exception "1.IH")
    done
qed

lemma read_file_raises_Exception: "read_file t p = Inl e \<Longrightarrow> is_Exception e"
  by (auto simp: read_file_def stat_def split: sum.splits node.splits dest: walk_raises_Exception)

lemma write_file_raises_Exception: "write_file t p d = Inl e \<Longrightarrow> is_Exception e"
  by (auto simp: write_file_def stat_def split: if_splits sum.splits node.splits option.splits
      dest: walk_raises_Exception)

lemma convert_try_raises_Exception:
  "convert_try codec f i ou t = (Inl e, t', out) \<Longrightarrow> is_Exception e"
  by (auto simp: convert_try_def relative_to_def Let_def
      split: sum.splits option.splits
      dest: mkdir_raises_Exception read_file_raises_Exception write_file_raises_Exception)


subsection \<open>One conversion on a well-formed tree\<close>




lemma target_dir_of_below [simp]:
  "target_dir_of input_dir od (input_dir @ r) = od @ butlast r"
  by (simp add: target_dir_of_def parent_def)

lemma jpeg_path_of_below:
  "jpeg_path_of input_dir od (input_dir @ r) = (od @ butlast r) @ [stem (input_dir @ r) @ ''.jpg'']"
  by (simp add: jpeg_path_of_def)


subsection \<open>Growing trees\<close>




lemma grows_File: "grows a b \<Longrightarrow> holds_file a p \<Longrightarrow> holds_file b p"
  by (auto simp: grows_def holds_file_iff dest!: spec [of _ p])



lemma grows_blocked: "grows a b \<Longrightarrow> blocked a p \<Longrightarrow> blocked b p"
  unfolding blocked_iff by (blast intro: grows_File)




subsection \<open>What a conversion settles\<close>






subsection \<open>The futures of the pool\<close>






subsection \<open>Invariants of a pool run\<close>



subsection \<open>The pool on a fresh tree and on a tree already converted\<close>




lemma written_other [simp]:
  "written i od None = []" "written i od (Some (Inl e)) = []"
  "written i od (Some (Inr NotFound)) = []" "written i od (Some (Inr NoFiles)) = []"
  by (simp_all add: written_def)





subsection \<open>The converter's exception handler\<close>


lemmas eval_defs = convert_single_heic_def convert_try_def relative_to_def parent_def mkdir.simps
  os_mkdir_def stat_def read_file_def write_file_def name_def stem_def is_dir_def
  example_tree_def example_codec_def rejecting_codec_def Let_def



text \<open>
  C3 (as the code has it): when the conversion raises, the outcome is the pair of the
  failure flag and the file's display name and nothing more; the text of the caught error
  goes to the console, in the line \<^verbatim>\<open>Error converting <name>: <text>\<close>, and is not
  part of the outcome.
\<close>

theorem failed_outcome_printed:
  "convert_try codec f i ou t = (Inl e, t', out) \<Longrightarrow>
   convert_single_heic codec f i ou t =
     (Inr (False, name f), t', out @ [PrintColor (ErrorConverting (name f) e) Red])"
  by (auto simp: convert_single_heic_def dest: convert_try_raises_Exception)

theorem failed_outcome_printed_witness:
  "convert_single_heic (rejecting_codec ''cannot identify image file'')
     [''in'', ''A'', ''photo1.HEIC''] [''in''] [''in'', ''Out''] example_tree =
   (Inr (False, ''photo1.HEIC''),
    example_tree @ [([''in'', ''Out''], Dir), ([''in'', ''Out'', ''A''], Dir)],
    [PrintColor (ErrorConverting ''photo1.HEIC'' (CodecError ''cannot identify image file''))
       Red])"
proof -
  have raised: "convert_try (rejecting_codec ''cannot identify image file'')
      [''in'', ''A'', ''photo1.HEIC''] [''in''] [''in'', ''Out''] example_tree =
    (Inl (CodecError ''cannot identify image file''),
     example_tree @ [([''in'', ''Out''], Dir), ([''in'', ''Out'', ''A''], Dir)], [])"
    by (simp add: eval_defs)
  show ?thesis
    using failed_outcome_printed [OF raised] by (simp add: name_def)
qed

text \<open>
  C3 as the specification states it fails: two conversions of the same file that raise
  different errors return the same outcome, so the outcome does not carry the error text.
\<close>

theorem outcome_without_error_text_counterexample:
  "fst (convert_single_heic (rejecting_codec ''cannot identify image file'')
          [''in'', ''A'', ''photo1.HEIC''] [''in''] [''in'', ''Out''] example_tree) =
   fst (convert_single_heic (rejecting_codec ''image file is truncated'')
          [''in'', ''A'', ''photo1.HEIC''] [''in''] [''in'', ''Out''] example_tree) \<and>
   fst (convert_try (rejecting_codec ''cannot identify image file'')
          [''in'', ''A'', ''photo1.HEIC''] [''in''] [''in'', ''Out''] example_tree) \<noteq>
   fst (convert_try (rejecting_codec ''image file is truncated'')
          [''in'', ''A'', ''photo1.HEIC''] [''in''] [''in'', ''Out''] example_tree)"
  by (simp add: eval_defs)

subsection \<open>Where a converted file is written\<close>




subsection \<open>What the enumeration returns\<close>

text \<open>
  C4: the enumeration returns the entries whose name has the source extension
  (\<open>set_rglob\<close>), regular files and directories alike. In the tree below one regular
  file has the extension, and the enumeration returns two paths: the file and the
  directory \<^verbatim>\<open>album.heic\<close> that holds it.
\<close>

theorem rglob_lists_directories:
  "rglob album_tree [''in''] heic_pattern =
     [[''in'', ''album.heic''], [''in'', ''album.heic'', ''photo.HEIC'']] \<and>
   lookup album_tree [''in'', ''album.heic''] = Some Dir \<and>
   filter (holds_file album_tree) (map fst album_tree) =
     [[''in'', ''album.heic'', ''photo.HEIC''], [''in'', ''notes.txt'']]"
  by (simp add: rglob_def album_tree_def heic_pattern_def below_def name_def lookup_def
      holds_file_def)

subsection \<open>An input path that is not a directory\<close>


text \<open>
  C5: an input path that does not exist ends the batch with the not-found report and an
  unchanged tree (\<open>batch_input_missing\<close>). An input path that exists as a regular file
  passes the \<^verbatim>\<open>exists()\<close> guard: the batch goes on to create the output directory
  and ends with the \<^verbatim>\<open>NotADirectoryError\<close> that \<^verbatim>\<open>mkdir\<close> raises.
\<close>

theorem batch_on_regular_file:
  "holds_file example_tree [''in'', ''C'', ''doc.txt''] \<and>
   convert_heic_to_jpeg example_codec (Some 8) [] [''in'', ''C'', ''doc.txt''] [''Out'']
     example_tree =
   (Some (Inl (NotADirectoryError [''in'', ''C'', ''doc.txt'', ''Out''])), example_tree, [])"
  by (simp add: convert_heic_to_jpeg_def exists_def eval_defs holds_file_def lookup_def)

subsection \<open>A batch that finds no source file\<close>

lemma name_append: "r \<noteq> [] \<Longrightarrow> name (d @ r) = last r"
  by (simp add: name_def)

text \<open>
  C8 (as the code has it): for every existing input directory (in a well-formed tree) in
  which no entry has a name with the source extension, with an output folder whose name
  has not that extension either and whose path no regular file occupies, the batch ends in
  the empty-result condition: it prints that no files were found, converts nothing and
  raises nothing. Its only effect on the tree is that the output directory and the
  directories leading to it exist afterwards.
\<close>

theorem batch_without_sources:
  assumes wf: "wf_fs t" and dir: "lookup t input_dir = Some Dir"
    and free: "\<not> blocked t (input_dir @ output_folder)"
    and none: "\<forall>p. below input_dir p \<longrightarrow> lookup t p \<noteq> None \<longrightarrow> \<not> has_heic_extension (name p)"
    and outn: "\<forall>c\<in>set output_folder. \<not> has_heic_extension c"
  shows "\<exists>t'. convert_heic_to_jpeg codec cpu_count sched input_dir output_folder t =
           (Some (Inr NoFiles), t', [PrintColor NoHeicFound Yellow]) \<and>
         (\<forall>q. lookup t' q =
            (if prefix q (input_dir @ output_folder) then Some Dir else lookup t q))"
proof -
  from mkdir_free [OF wf free] obtain t1 where
    mk: "mkdir t (input_dir @ output_folder) True True = Inr t1" and wf1: "wf_fs t1"
    and l1: "\<And>q. lookup t1 q =
      (if prefix q (input_dir @ output_folder) then Some Dir else lookup t q)"
    by blast
  have "set (rglob t1 input_dir heic_pattern) = {}"
  proof (rule ccontr)
    assume "set (rglob t1 input_dir heic_pattern) \<noteq> {}"
    then obtain p where p: "below input_dir p" "lookup t1 p \<noteq> None" "has_heic_extension (name p)"
      unfolding set_rglob [OF wf1] by blast
    from p(1) obtain r where r: "r \<noteq> []" "p = input_dir @ r" by (auto simp: below_iff)
    show False
    proof (cases "prefix p (input_dir @ output_folder)")
      case True
      with r have "prefix r output_folder" by simp
      with r(1) have "last r \<in> set output_folder"
        by (metis last_in_set set_mono_prefix subsetD)
      moreover have "name p = last r" using r by (simp add: name_append)
      ultimately show False using outn p(3) by auto
    next
      case False
      with l1 [of p] p(2) have "lookup t p \<noteq> None" by simp
      with none p(1,3) show False by blast
    qed
  qed
  then have nofiles: "rglob t1 input_dir heic_pattern = []" by simp
  have ex: "exists t input_dir" using dir by (simp add: exists_iff [OF wf])
  have "convert_heic_to_jpeg codec cpu_count sched input_dir output_folder t =
           (Some (Inr NoFiles), t1, [PrintColor NoHeicFound Yellow])"
    using ex mk nofiles by (simp add: convert_heic_to_jpeg_def)
  with l1 show ?thesis by blast
qed

theorem batch_without_sources_witness:
  "convert_heic_to_jpeg example_codec (Some 8) [] [''in'', ''C''] [''Out''] example_tree =
     (Some (Inr NoFiles), example_tree @ [([''in'', ''C'', ''Out''], Dir)],
      [PrintColor NoHeicFound Yellow]) \<and>
   lookup (example_tree @ [([''in'', ''C'', ''Out''], Dir)]) [''in'', ''C'', ''Out''] = Some Dir \<and>
   lookup (example_tree @ [([''in'', ''C'', ''Out''], Dir)]) [''in'', ''C'', ''doc.txt'']
     = lookup example_tree [''in'', ''C'', ''doc.txt'']"
proof -
  have wf: "wf_fs example_tree"
    by (simp add: wf_fs_def example_tree_def lookup_def)
  have dir: "lookup example_tree [''in'', ''C''] = Some Dir"
    by (simp add: example_tree_def lookup_def)
  have free: "\<not> blocked example_tree ([''in'', ''C''] @ [''Out''])"
    by (simp add: blocked_def holds_file_def example_tree_def lookup_def)
  have none: "\<forall>p. below [''in'', ''C''] p \<longrightarrow> lookup example_tree p \<noteq> None \<longrightarrow>
      \<not> has_heic_extension (name p)"
  proof (intro allI impI)
    fix p assume "below [''in'', ''C''] p" "lookup example_tree p \<noteq> None"
    then have "p = [''in'', ''C'', ''doc.txt'']"
      by (auto simp: below_iff example_tree_def lookup_def split: if_splits)
    then show "\<not> has_heic_extension (name p)"
      by (simp add: name_def has_heic_extension_def)
  qed
  have outn: "\<forall>c\<in>set [''Out'']. \<not> has_heic_extension c"
    by (simp add: has_heic_extension_def)
  have run: "convert_heic_to_jpeg example_codec (Some 8) [] [''in'', ''C''] [''Out''] example_tree =
     (Some (Inr NoFiles), example_tree @ [([''in'', ''C'', ''Out''], Dir)],
      [PrintColor NoHeicFound Yellow])"
    by code_simp
  from batch_without_sources [OF wf dir free none outn, of example_codec "Some 8" "[]"] run
  have l: "\<forall>q. lookup (example_tree @ [([''in'', ''C'', ''Out''], Dir)]) q =
      (if prefix q ([''in'', ''C''] @ [''Out'']) then Some Dir else lookup example_tree q)"
    by auto
  have a: "lookup (example_tree @ [([''in'', ''C'', ''Out''], Dir)]) [''in'', ''C'', ''Out'']
      = Some Dir"
    using l by simp
  have b: "lookup (example_tree @ [([''in'', ''C'', ''Out''], Dir)]) [''in'', ''C'', ''doc.txt'']
     = lookup example_tree [''in'', ''C'', ''doc.txt'']"
    using l by simp
  from run a b show ?thesis by blast
qed

text \<open>
  C8 as the specification states it fails: in an input directory without a single source
  file, an output folder name that a regular file bears makes \<^verbatim>\<open>mkdir\<close> raise, and the
  batch ends with that exception instead of the empty-result condition.
\<close>

theorem batch_without_sources_counterexample:
  "lookup example_tree [''in'', ''C''] = Some Dir \<and>
   filter (\<lambda>p. below [''in'', ''C''] p \<and> has_heic_extension (name p)) (map fst example_tree) = [] \<and>
   convert_heic_to_jpeg example_codec (Some 8) [] [''in'', ''C''] [''doc.txt''] example_tree =
     (Some (Inl (FileExistsError [''in'', ''C'', ''doc.txt''])), example_tree, [])"
  by (simp add: convert_heic_to_jpeg_def exists_def eval_defs lookup_def below_def
      has_heic_extension_def)

subsection \<open>Running the batch twice\<close>









subsection \<open>The dispatcher\<close>





subsection \<open>Worker-pool size\<close>

text \<open>
  C6: the pool size is min(32, number of CPU cores) for every core count the platform
  reports (a positive number), and min(32, 4) = 4 when the count is undetermined.
\<close>

theorem max_workers_formula:
  "max_workers None = 4 \<and> min 32 4 = (4::int) \<and>
   (0 < n \<longrightarrow> max_workers (Some n) = min 32 n)"
  by (simp add: max_workers_def)

theorem max_workers_formula_witness:
  "max_workers None = 4 \<and> max_workers (Some 8) = 8 \<and> max_workers (Some 64) = 32"
  using max_workers_formula [of 8] max_workers_formula [of 64] by simp

end
